theory Spec2Isabelle
  imports Main
begin

section \<open>Data model of \<open>words.py\<close>\<close>

text \<open>
  \<open>class Label(enum.Enum)\<close>: six members, each built from a tuple \<open>(name, key)\<close>.
  \<open>labels\<close> is the iteration order of the enumeration (\<open>for label in Label\<close>).
\<close>

datatype Label = NONE | KEYWORD | NOISE | RELEVANT | NOT_RELEVANT | POSTPONED

fun label_name :: "Label \<Rightarrow> string" where
  "label_name NONE = ''''"
| "label_name KEYWORD = ''keyword''"
| "label_name NOISE = ''noise''"
| "label_name RELEVANT = ''relevant''"
| "label_name NOT_RELEVANT = ''not-relevant''"
| "label_name POSTPONED = ''postponed''"

fun label_key :: "Label \<Rightarrow> string" where
  "label_key NONE = ''''"
| "label_key KEYWORD = ''k''"
| "label_key NOISE = ''n''"
| "label_key RELEVANT = ''r''"
| "label_key NOT_RELEVANT = ''x''"
| "label_key POSTPONED = ''p''"

definition labels :: "Label list" where
  "labels = [NONE, KEYWORD, NOISE, RELEVANT, NOT_RELEVANT, POSTPONED]"

text \<open>
  Exceptions are values. \<open>ValueError\<close> and \<open>TypeError\<close> carry their message, \<open>KeyError\<close>
  the missing key.
\<close>

datatype error = ValueError string | KeyError string | TypeError string

text \<open>
  \<open>@dataclass class Word\<close>. \<open>count\<close> is a string: \<open>from_csv\<close> stores the csv field as
  it is read. \<open>order\<close> is an integer, \<open>-1\<close> for a word that is not classified.
\<close>

record Word =
  index :: int
  word :: string
  count :: string
  group :: Label
  order :: int
  related :: string

section \<open>The term store: \<open>WordList\<close>\<close>

text \<open>
  Python's \<open>max\<close> over a sequence: it raises \<open>ValueError\<close> on an empty one, otherwise it
  walks the sequence keeping the largest element seen.
\<close>

fun py_max :: "int list \<Rightarrow> error + int" where
  "py_max [] = Inl (ValueError ''max() arg is an empty sequence'')"
| "py_max (x # xs) = Inr (fold max xs x)"

text \<open>\<open>WordList.get_last_classified_order\<close>.\<close>

definition get_last_classified_order :: "Word list \<Rightarrow> error + int" where
  "get_last_classified_order items =
     (case py_max (map order items) of
        Inl e \<Rightarrow> Inl e
      | Inr ord \<Rightarrow> Inr (if ord < 0 then -1 else ord))"

text \<open>
  \<open>WordList.get_last_classified_word\<close>: the \<open>for\<close> loop returns the first word whose order
  equals the last order; its \<open>else\<close> branch returns \<open>None\<close> when the loop finds no such word.
\<close>

definition get_last_classified_word :: "Word list \<Rightarrow> error + Word option" where
  "get_last_classified_word items =
     (case get_last_classified_order items of
        Inl e \<Rightarrow> Inl e
      | Inr last_order \<Rightarrow> Inr (find (\<lambda>w. order w = last_order) items))"

text \<open>
  \<open>WordList.mark_word\<close>: the loop updates the first word whose string is \<open>word\<close> and
  breaks; when no word matches, the loop ends without any update. The method has no
  \<open>raise\<close>: it always returns the list.
\<close>

fun mark_word_loop :: "string \<Rightarrow> Label \<Rightarrow> int \<Rightarrow> string \<Rightarrow> Word list \<Rightarrow> Word list" where
  "mark_word_loop s marker ord rel [] = []"
| "mark_word_loop s marker ord rel (w # ws) =
     (if word w = s
      then w\<lparr>group := marker, order := ord, related := rel\<rparr> # ws
      else w # mark_word_loop s marker ord rel ws)"

definition mark_word :: "string \<Rightarrow> Label \<Rightarrow> int \<Rightarrow> string \<Rightarrow> Word list \<Rightarrow> error + Word list" where
  "mark_word s marker ord rel items = Inr (mark_word_loop s marker ord rel items)"

text \<open>
  \<open>str.isspace\<close> on one character, for the code points below 256 (a \<open>char\<close> stands for
  one code point): tab, line feed, vertical tab, form feed, carriage return, the four
  separators \<open>0x1c..0x1f\<close>, space, next line \<open>0x85\<close> and no-break space \<open>0xa0\<close>.
\<close>

definition is_space :: "char \<Rightarrow> bool" where
  "is_space c = (of_char c \<in> set [9, 10, 11, 12, 13, 28, 29, 30, 31, 32, 133, 160 :: nat])"

text \<open>
  \<open>str.split()\<close> without argument: runs of whitespace separate the tokens and no empty
  token is produced. \<open>cur\<close> is the token being read.
\<close>

fun split_from :: "string \<Rightarrow> string \<Rightarrow> string list" where
  "split_from cur [] = (if cur = [] then [] else [cur])"
| "split_from cur (c # cs) =
     (if is_space c
      then (if cur = [] then split_from [] cs else cur # split_from [] cs)
      else split_from (cur @ [c]) cs)"

definition py_split :: "string \<Rightarrow> string list" where
  "py_split s = split_from [] s"

text \<open>\<open>WordList._word_contains\<close>: \<open>any([substring == word for word in string.split()])\<close>.\<close>

definition word_contains :: "string \<Rightarrow> string \<Rightarrow> bool" where
  "word_contains s substring = list_ex (\<lambda>w. substring = w) (py_split s)"

text \<open>
  The test \<open>w.order is not None\<close> of \<open>return_related_items\<close>. The order of a word is always
  an integer (\<open>from_csv\<close> stores \<open>-1\<close> or \<open>int(...)\<close>, \<open>mark_word\<close> stores its integer
  argument), and an integer is never \<open>None\<close>.
\<close>

definition order_is_not_None :: "int \<Rightarrow> bool" where
  "order_is_not_None ord = True"

text \<open>
  \<open>WordList.return_related_items\<close>: the loop skips (\<open>continue\<close>) every word with
  \<open>w.group != label or w.order is not None\<close> and appends the string of any other word to
  \<open>containing\<close> or to \<open>not_containing\<close>.
\<close>

fun related_items_loop ::
  "string \<Rightarrow> Label \<Rightarrow> Word list \<Rightarrow> string list \<times> string list \<Rightarrow> string list \<times> string list" where
  "related_items_loop key label [] acc = acc"
| "related_items_loop key label (w # ws) (containing, not_containing) =
     (if group w \<noteq> label \<or> order_is_not_None (order w)
      then related_items_loop key label ws (containing, not_containing)
      else if word_contains (word w) key
      then related_items_loop key label ws (containing @ [word w], not_containing)
      else related_items_loop key label ws (containing, not_containing @ [word w]))"

definition return_related_items :: "string \<Rightarrow> Label \<Rightarrow> Word list \<Rightarrow> string list \<times> string list" where
  "return_related_items key label items = related_items_loop key label items ([], [])"

section \<open>Loading the store: \<open>WordList.from_csv\<close>\<close>

text \<open>
  A cell of a row that \<open>csv.DictReader\<close> yields is a string, or \<open>None\<close> where the line
  has fewer cells than the header: a value of type \<open>string option\<close>, with \<open>None\<close> for
  Python's \<open>None\<close>. \<open>py_format\<close> is what \<open>'{}'.format(v)\<close> prints for such a value.
\<close>

definition py_format :: "string option \<Rightarrow> string" where
  "py_format v = (case v of None \<Rightarrow> ''None'' | Some s \<Rightarrow> s)"

text \<open>
  \<open>Label.get_from_key\<close> and \<open>Label.get_from_name\<close>: the first label, in enumeration order,
  whose key (name) equals the argument; \<open>ValueError\<close> when the loop finds none. No key and
  no name equals \<open>None\<close>. The message quotes the argument between two double quotes
  (character \<open>0x22\<close>).
\<close>

definition get_from_key :: "string option \<Rightarrow> error + Label" where
  "get_from_key key =
     (case find (\<lambda>label. Some (label_key label) = key) labels of
        Some label \<Rightarrow> Inr label
      | None \<Rightarrow>
          Inl (ValueError (CHR 0x22 # py_format key @ CHR 0x22 # '' is not a valid key'')))"

definition get_from_name :: "string option \<Rightarrow> error + Label" where
  "get_from_name name =
     (case find (\<lambda>label. Some (label_name label) = name) labels of
        Some label \<Rightarrow> Inr label
      | None \<Rightarrow>
          Inl (ValueError
                (CHR 0x22 # py_format name @ CHR 0x22 # '' is not a valid label name'')))"

text \<open>
  The dictionary that \<open>csv.DictReader\<close> builds from the header \<open>fieldnames\<close> and the cells
  of one line: \<open>dict(zip(fieldnames, row))\<close>, then \<open>d[key] = None\<close> for every field name
  beyond the cells of a short line. It is kept as the list of these assignments in the
  order they are made; a later assignment to the same key overrides an earlier one. The
  cells of a line longer than the header go under the key \<open>None\<close>, which \<open>from_csv\<close>
  never reads.
\<close>

definition row_dict :: "string list \<Rightarrow> string list \<Rightarrow> (string \<times> string option) list" where
  "row_dict fieldnames cells =
     zip fieldnames (map Some cells) @
     map (\<lambda>k. (k, None)) (drop (length cells) fieldnames)"

definition row_lookup :: "(string \<times> string option) list \<Rightarrow> string \<Rightarrow> string option option" where
  "row_lookup d k = map_of (rev d) k"

text \<open>\<open>row[k]\<close> raises \<open>KeyError\<close> for a key the dictionary lacks; \<open>row.get(k, default)\<close>.\<close>

definition row_item :: "(string \<times> string option) list \<Rightarrow> string \<Rightarrow> error + string option" where
  "row_item d k = (case row_lookup d k of None \<Rightarrow> Inl (KeyError k) | Some v \<Rightarrow> Inr v)"

definition row_get :: "(string \<times> string option) list \<Rightarrow> string \<Rightarrow> string \<Rightarrow> string option" where
  "row_get d k dflt = (case row_lookup d k of None \<Rightarrow> Some dflt | Some v \<Rightarrow> v)"

text \<open>
  \<open>int(order_value)\<close>. On \<open>None\<close> the builtin raises \<open>TypeError\<close> (character \<open>0x27\<close> is
  the single quote of its message). On a string it is the
  parameter \<open>int_of\<close>: the builtin \<open>int\<close> restricted to strings, which returns the integer
  or raises.
\<close>

definition int_of_cell :: "(string \<Rightarrow> error + int) \<Rightarrow> string option \<Rightarrow> error + int" where
  "int_of_cell int_of v =
     (case v of
        None \<Rightarrow>
          Inl (TypeError
                (''int() argument must be a string, a bytes-like object or a real number, not ''
                 @ CHR 0x27 # ''NoneType'' @ [CHR 0x27]))
      | Some s \<Rightarrow> int_of s)"

text \<open>
  \<open>try: group = Label.get_from_name(...) except ValueError: group = Label.get_from_key(...)\<close>.
\<close>

definition label_of_field :: "string option \<Rightarrow> error + Label" where
  "label_of_field g =
     (case get_from_name g of
        Inl (ValueError m) \<Rightarrow> get_from_key g
      | Inl (KeyError k) \<Rightarrow> Inl (KeyError k)
      | Inl (TypeError m) \<Rightarrow> Inl (TypeError m)
      | Inr label \<Rightarrow> Inr label)"

text \<open>
  The \<open>Word\<close> that \<open>from_csv\<close> builds from a row. Its \<open>word\<close>, \<open>count\<close> and \<open>related\<close>
  are cells of the row as they are: strings, or \<open>None\<close> on a short line. \<open>as_Word\<close> is
  the word of the store when all three are strings.
\<close>

record Row_Word =
  row_index :: int
  row_word :: "string option"
  row_count :: "string option"
  row_group :: Label
  row_order :: int
  row_related :: "string option"

definition as_Word :: "Row_Word \<Rightarrow> Word option" where
  "as_Word r =
     (case (row_word r, row_count r, row_related r) of
        (Some w, Some c, Some rel) \<Rightarrow>
          Some \<lparr>index = row_index r, word = w, count = c, group = row_group r,
                order = row_order r, related = rel\<rparr>
      | _ \<Rightarrow> None)"

text \<open>
  The body of the \<open>for row in csv_reader\<close> loop, in the order the statements run. The
  comparison \<open>order_value == ''\<close> is false for \<open>None\<close>. The \<open>except ValueError\<close> clause
  does not catch a \<open>KeyError\<close> of \<open>row['group']\<close>.
\<close>

definition word_of_row ::
  "(string \<Rightarrow> error + int) \<Rightarrow> (string \<times> string option) list \<Rightarrow> error + Row_Word" where
  "word_of_row int_of d =
     (case row_item d ''order'' of
        Inl e \<Rightarrow> Inl e
      | Inr order_value \<Rightarrow>
     (case (if order_value = Some '''' then Inr (- 1) else int_of_cell int_of order_value) of
        Inl e \<Rightarrow> Inl e
      | Inr ord \<Rightarrow>
     (let rel = row_get d ''related'' '''' in
     (case row_item d ''group'' of
        Inl e \<Rightarrow> Inl e
      | Inr g \<Rightarrow>
     (case label_of_field g of
        Inl e \<Rightarrow> Inl e
      | Inr grp \<Rightarrow>
     (case row_item d ''keyword'' of
        Inl e \<Rightarrow> Inl e
      | Inr kw \<Rightarrow>
     (case row_item d ''count'' of
        Inl e \<Rightarrow> Inl e
      | Inr cnt \<Rightarrow>
          Inr \<lparr>row_index = 0, row_word = kw, row_count = cnt, row_group = grp,
               row_order = ord, row_related = rel\<rparr>)))))))"

fun words_of_rows ::
  "(string \<Rightarrow> error + int) \<Rightarrow> string list \<Rightarrow> string list list \<Rightarrow> error + Row_Word list" where
  "words_of_rows int_of fieldnames [] = Inr []"
| "words_of_rows int_of fieldnames (cells # rest) =
     (case word_of_row int_of (row_dict fieldnames cells) of
        Inl e \<Rightarrow> Inl e
      | Inr w \<Rightarrow>
     (case words_of_rows int_of fieldnames rest of
        Inl e \<Rightarrow> Inl e
      | Inr ws \<Rightarrow> Inr (w # ws)))"

text \<open>
  \<open>WordList.from_csv\<close>, on the lines of the file as \<open>csv.reader\<close> parses them, each a
  list of cells (the empty list for a blank line). \<open>csv.DictReader\<close> takes the first
  line as the field names and skips every later blank line. On an empty file the field
  names are \<open>None\<close>, the loop runs over no row, and \<open>'related' not in header\<close> raises
  \<open>TypeError\<close>. The result is the header (with \<open>related\<close> appended when it is missing) and
  the items, which the source also assigns to the store; a failure leaves the store as it
  was.
\<close>

definition from_csv ::
  "(string \<Rightarrow> error + int) \<Rightarrow> string list list \<Rightarrow> error + string list \<times> Row_Word list" where
  "from_csv int_of lines =
     (case lines of
        [] \<Rightarrow>
          Inl (TypeError
                (''argument of type '' @ CHR 0x27 # ''NoneType'' @ CHR 0x27 # '' is not iterable''))
      | header # rest \<Rightarrow>
     (case words_of_rows int_of header (filter (\<lambda>cells. cells \<noteq> []) rest) of
        Inl e \<Rightarrow> Inl e
      | Inr items \<Rightarrow>
          Inr (if ''related'' \<in> set header then header else header @ [''related''], items)))"

section \<open>The classification session: \<open>fawoc.py\<close>\<close>

text \<open>
  \<open>fawoc.py\<close> imports the store from the module \<open>terms\<close>, which is not among the source
  files, and calls on it \<open>classify_term\<close>, \<open>get_last_classified_order\<close>,
  \<open>return_related_items\<close>, \<open>get_last_classified_term\<close> and \<open>get_from_label\<close>, reading
  \<open>term.string\<close> and \<open>term.label\<close>. The store of \<open>words.py\<close> above has the fields \<open>word\<close>
  and \<open>group\<close> for these; \<open>get_last_classified_order\<close> and \<open>return_related_items\<close> are
  its methods of these names, and \<open>classify_term\<close> is its \<open>mark_word\<close>: the lookup by
  string that sets label, order and related. \<open>get_last_classified_term\<close> and
  \<open>get_from_label\<close> are modelled from the specification, below.

  The store is mutated in place by the source; here every function returns it. The work
  queue \<open>to_classify\<close> is the list of the strings of its terms, the form in which
  \<open>return_related_items\<close> builds it.
\<close>

record session =
  terms :: "Word list"
  to_classify :: "string list"
  related_items_count :: int
  sort_word_key :: string

text \<open>
  \<open>classify(label, terms, review, evaluated_term, sort_word_key, related_items_count)\<close>.
  The arguments of \<open>classify_term\<close> are evaluated first, so a failure of
  \<open>get_last_classified_order\<close> leaves the store untouched.
\<close>

definition classify ::
  "Label \<Rightarrow> Word list \<Rightarrow> Label \<Rightarrow> Word \<Rightarrow> string \<Rightarrow> int \<Rightarrow> error + session" where
  "classify label items review evaluated_term key cnt =
     (case get_last_classified_order items of
        Inl e \<Rightarrow> Inl e
      | Inr last_order \<Rightarrow>
     (case mark_word (word evaluated_term) label (last_order + 1) key items of
        Inl e \<Rightarrow> Inl e
      | Inr items' \<Rightarrow>
     (let key' = (if cnt \<le> 0 then word evaluated_term else key);
          (containing, not_containing) = return_related_items key' review items';
          cnt' = (if cnt \<le> 0 then int (length containing) + 1 else cnt)
      in Inr \<lparr>terms = items', to_classify = containing @ not_containing,
               related_items_count = cnt' - 1, sort_word_key = key'\<rparr>)))"

text \<open>\<open>do_classify\<close>: logs, calls \<open>classify\<close> and returns its result with the word.\<close>

definition do_classify ::
  "Word list \<Rightarrow> Word \<Rightarrow> Label \<Rightarrow> Label \<Rightarrow> string \<Rightarrow> int \<Rightarrow> error + Word \<times> session" where
  "do_classify items w label review skey related_count =
     (case classify label items review w skey related_count of
        Inl e \<Rightarrow> Inl e
      | Inr s \<Rightarrow> Inr (w, s))"



text \<open>
  Modelled from the spec: \<open>TermList.get_last_classified_term\<close>, which \<open>undo\<close> calls and
  which is not among the source files. The spec describes it as \<open>last_classified()\<close>: it
  returns the term with maximum \<open>order \<ge> 0\<close>, or none if no term is classified yet.
\<close>

definition get_last_classified_term :: "Word list \<Rightarrow> Word option" where
  "get_last_classified_term items =
     (case filter (\<lambda>w. 0 \<le> order w) items of
        [] \<Rightarrow> None
      | c # cs \<Rightarrow> Some (fold (\<lambda>w best. if order best < order w then w else best) cs c))"

text \<open>
  \<open>undo(terms, to_classify, review, sort_word_key, related_items_count, logger, profiler)\<close>.
  When the store has no last classified term the arguments are returned as they are.
  Otherwise \<open>related\<close> is read from the last term before the store is changed;
  \<open>classify_term(last_word.string, review, -1)\<close> leaves the parameter \<open>related\<close> at its
  default, the empty string.
\<close>

definition undo ::
  "Word list \<Rightarrow> string list \<Rightarrow> Label \<Rightarrow> string \<Rightarrow> int \<Rightarrow> error + session" where
  "undo items queue review key cnt =
     (case get_last_classified_term items of
        None \<Rightarrow>
          Inr \<lparr>terms = items, to_classify = queue,
               related_items_count = cnt, sort_word_key = key\<rparr>
      | Some last_word \<Rightarrow>
     (let rel = related last_word in
     (case mark_word (word last_word) review (- 1) '''' items of
        Inl e \<Rightarrow> Inl e
      | Inr items' \<Rightarrow>
     (let (queue', cnt', key') =
            (if rel = key
             then (word last_word # queue, cnt + 1, key)
             else (let (containing, not_containing) = return_related_items rel review items'
                   in (containing @ not_containing, int (length containing), rel)))
      in Inr \<lparr>terms = items', to_classify = queue',
               related_items_count = (if key' = '''' then 0 else cnt'),
               sort_word_key = key'\<rparr>))))"

section \<open>Notions of the specification\<close>

text \<open>
  The specification's whole-token match, in its own words: \<open>key\<close> is one of the
  whitespace-separated component tokens of \<open>s\<close>. A token is a non-empty piece of \<open>s\<close>
  without whitespace that is bounded on each side by whitespace or by an end of \<open>s\<close>.
\<close>

definition token_of :: "string \<Rightarrow> string \<Rightarrow> bool" where
  "token_of s key \<longleftrightarrow>
     key \<noteq> [] \<and> list_all (\<lambda>c. \<not> is_space c) key \<and>
     (\<exists>pre post. s = pre @ key @ post \<and>
        (pre = [] \<or> is_space (last pre)) \<and> (post = [] \<or> is_space (hd post)))"

text \<open>
  The store invariant on orders: the non-negative orders are pairwise distinct.
\<close>

definition unique_orders :: "Word list \<Rightarrow> bool" where
  "unique_orders items = distinct (filter (\<lambda>n. 0 \<le> n) (map order items))"



text \<open>
  A stand-in for the parameter \<open>int_of\<close> in examples whose order cells are all empty, where
  \<open>int\<close> is never called: it rejects every string.
\<close>

definition int_never_called :: "string \<Rightarrow> error + int" where
  "int_never_called s = Inl (ValueError (''invalid literal for int() with base 10: '' @ s))"

section \<open>Properties of the term store\<close>

subsection \<open>The maximum of the orders\<close>

lemma fold_max_ge: "(x::int) \<le> fold max xs x"
  by (induction xs arbitrary: x) (auto intro: order_trans [OF max.cobounded2])

lemma fold_max_upper: "y \<in> set xs \<Longrightarrow> (y::int) \<le> fold max xs x"
proof (induction xs arbitrary: x)
  case Nil
  then show ?case by simp
next
  case (Cons a xs)
  show ?case
  proof (cases "y = a")
    case True
    have "a \<le> max a x" by simp
    also have "\<dots> \<le> fold max xs (max a x)" by (rule fold_max_ge)
    finally show ?thesis using True by simp
  next
    case False
    with Cons.prems have "y \<in> set xs" by simp
    then show ?thesis using Cons.IH by simp
  qed
qed

lemma fold_max_mem: "fold max xs (x::int) \<in> insert x (set xs)"
  by (induction xs arbitrary: x) (auto simp: max_def)

lemma py_max_Cons: "py_max (x # xs) = Inr (Max (set (x # xs)))"
proof -
  have "fold max xs x = Max (set (x # xs))"
    by (rule sym, rule Max_eqI)
       (use fold_max_mem [of xs x] fold_max_ge [of x xs] fold_max_upper [of _ xs x] in auto)
  then show ?thesis by simp
qed

lemma get_last_classified_order_nonempty:
  "items \<noteq> [] \<Longrightarrow>
   get_last_classified_order items =
     Inr (if Max (order ` set items) < 0 then - 1 else Max (order ` set items))"
  by (cases items) (simp_all add: get_last_classified_order_def py_max_Cons del: py_max.simps)

text \<open>
  C10. On a store without items, \<open>get_last_classified_order\<close> and
  \<open>get_last_classified_word\<close> fail with the \<open>ValueError\<close> of \<open>max\<close> over an empty
  sequence; they return neither \<open>-1\<close> nor \<open>None\<close>. The empty store is the only one on
  which they fail: on every non-empty store both return a value.
\<close>

theorem last_classified_fails_on_empty_store:
  "get_last_classified_order [] = Inl (ValueError ''max() arg is an empty sequence'')
   \<and> get_last_classified_word [] = Inl (ValueError ''max() arg is an empty sequence'')
   \<and> (isl (get_last_classified_order items) \<longleftrightarrow> items = [])
   \<and> (isl (get_last_classified_word items) \<longleftrightarrow> items = [])"
  by (cases items) (simp_all add: get_last_classified_order_def get_last_classified_word_def)

subsection \<open>The last classified word\<close>

lemma get_last_classified_order_bound:
  assumes "items \<noteq> []"
  shows "\<exists>n. get_last_classified_order items = Inr n \<and> - 1 \<le> n \<and> (\<forall>w \<in> set items. order w \<le> n)"
proof -
  let ?m = "Max (order ` set items)"
  have le: "order w \<le> ?m" if "w \<in> set items" for w
    using that by (auto intro: Max_ge)
  show ?thesis
  proof (cases "?m < 0")
    case True
    have "order w \<le> - 1" if "w \<in> set items" for w
      using le [OF that] True by linarith
    with True show ?thesis
      using get_last_classified_order_nonempty [OF assms] by simp
  next
    case False
    with le show ?thesis
      using get_last_classified_order_nonempty [OF assms] by simp
  qed
qed

text \<open>
  When some word is classified, the last classified word is a word of the store with the
  largest order.
\<close>

lemma last_classified_word_of_classified:
  assumes "\<exists>w \<in> set items. 0 \<le> order w"
  shows "\<exists>w. get_last_classified_word items = Inr (Some w) \<and> w \<in> set items
           \<and> 0 \<le> order w \<and> (\<forall>v \<in> set items. order v \<le> order w)"
proof -
  from assms have ne: "items \<noteq> []" by auto
  let ?m = "Max (order ` set items)"
  from assms obtain u where u: "u \<in> set items" "0 \<le> order u" by blast
  have "order u \<le> ?m" using u(1) by (intro Max_ge) auto
  with u(2) have m0: "0 \<le> ?m" by linarith
  have "?m \<in> order ` set items" using ne by (intro Max_in) auto
  then have ex: "\<exists>w \<in> set items. order w = ?m" by auto
  have glo: "get_last_classified_order items = Inr ?m"
    using get_last_classified_order_nonempty [OF ne] m0 by simp
  from ex obtain w where w: "find (\<lambda>w. order w = ?m) items = Some w"
    by (cases "find (\<lambda>w. order w = ?m) items") (auto simp: find_None_iff)
  then have wm: "order w = ?m" and win: "w \<in> set items"
    by (auto simp: find_Some_iff)
  have "\<forall>v \<in> set items. order v \<le> order w"
    unfolding wm by (auto intro: Max_ge)
  with w wm win m0 glo show ?thesis
    by (simp add: get_last_classified_word_def)
qed

text \<open>
  When no word is classified, the last order is normalised to \<open>-1\<close>, which is the order of
  every word: the loop returns the first word of the store and never reaches its \<open>else\<close>.
\<close>

lemma last_classified_word_of_unclassified:
  assumes "items \<noteq> []" and "\<forall>w \<in> set items. order w = - 1"
  shows "get_last_classified_word items = Inr (Some (hd items))"
proof -
  have "order ` set items = {- 1}" using assms by (cases items) auto
  then have "get_last_classified_order items = Inr (- 1)"
    using get_last_classified_order_nonempty [OF assms(1)] by simp
  moreover have "find (\<lambda>w. order w = - 1) items = Some (hd items)"
    using assms by (cases items) auto
  ultimately show ?thesis by (simp add: get_last_classified_word_def)
qed

text \<open>
  C1. \<open>get_last_classified_word\<close> is to return the term of maximum order when a term is
  classified, and \<open>None\<close> when every order is \<open>-1\<close>. The second half fails on the code: on
  the store whose single term \<open>a\<close> is unclassified (order \<open>-1\<close>) the function returns the
  term \<open>a\<close>, not \<open>None\<close>.
\<close>

theorem last_classified_word_unclassified_store:
  "get_last_classified_word
     [\<lparr>index = 0, word = ''a'', count = ''1'', group = NONE, order = - 1, related = ''''\<rparr>]
   = Inr (Some \<lparr>index = 0, word = ''a'', count = ''1'', group = NONE, order = - 1,
                 related = ''''\<rparr>)"
  by (simp add: get_last_classified_word_def get_last_classified_order_def)

subsection \<open>Marking a word\<close>

lemma mark_word_loop_absent:
  "s \<notin> word ` set items \<Longrightarrow> mark_word_loop s marker ord rel items = items"
  by (induction items) auto

lemma mark_word_loop_present:
  "s \<in> word ` set items \<Longrightarrow>
   \<exists>i < length items. word (items ! i) = s \<and> (\<forall>j < i. word (items ! j) \<noteq> s) \<and>
     mark_word_loop s marker ord rel items =
       items[i := (items ! i)\<lparr>group := marker, order := ord, related := rel\<rparr>]"
proof (induction items)
  case Nil
  then show ?case by simp
next
  case (Cons w ws)
  show ?case
  proof (cases "word w = s")
    case True
    then show ?thesis by (intro exI [of _ 0]) simp
  next
    case False
    with Cons.prems have "s \<in> word ` set ws" by auto
    from Cons.IH [OF this] obtain i where i: "i < length ws" "word (ws ! i) = s"
      "\<forall>j < i. word (ws ! j) \<noteq> s"
      "mark_word_loop s marker ord rel ws =
         ws[i := (ws ! i)\<lparr>group := marker, order := ord, related := rel\<rparr>]"
      by blast
    have "\<forall>j < Suc i. word ((w # ws) ! j) \<noteq> s"
      using False i(3) by (auto simp: less_Suc_eq_0_disj)
    with i False show ?thesis by (intro exI [of _ "Suc i"]) simp
  qed
qed

lemma find_mark_word_loop:
  "find (\<lambda>w. word w = s) (mark_word_loop s marker ord rel items) =
   map_option (\<lambda>w. w\<lparr>group := marker, order := ord, related := rel\<rparr>)
     (find (\<lambda>w. word w = s) items)"
  by (induction items) auto

text \<open>
  C3, as the code has it. For every store and every term string absent from it,
  \<open>mark_word\<close> raises no error: it returns normally, and every term of the store is left
  unchanged. The missing term is ignored silently.
\<close>

theorem mark_word_absent_term:
  "s \<notin> word ` set items \<Longrightarrow> mark_word s marker ord rel items = Inr items"
  by (simp add: mark_word_def mark_word_loop_absent)

theorem mark_word_absent_term_witness:
  "''b'' \<notin> word ` set [\<lparr>index = 0, word = ''a'', count = ''1'', group = NONE, order = - 1,
                          related = ''''\<rparr>]
   \<and> mark_word ''b'' KEYWORD 0 ''''
        [\<lparr>index = 0, word = ''a'', count = ''1'', group = NONE, order = - 1, related = ''''\<rparr>]
      = Inr [\<lparr>index = 0, word = ''a'', count = ''1'', group = NONE, order = - 1,
              related = ''''\<rparr>]"
  using mark_word_absent_term [of "''b''"
      "[\<lparr>index = 0, word = ''a'', count = ''1'', group = NONE, order = - 1, related = ''''\<rparr>]"
      KEYWORD 0 "''''"]
  by simp

text \<open>
  C3 as stated fails: classifying the string \<open>b\<close>, absent from the store that holds only
  \<open>a\<close>, does not fail.
\<close>

theorem mark_word_absent_term_no_error:
  "\<not> isl (mark_word ''b'' KEYWORD 0 ''''
        [\<lparr>index = 0, word = ''a'', count = ''1'', group = NONE, order = - 1, related = ''''\<rparr>])"
  by (simp add: mark_word_def)

text \<open>
  C9. For every call of \<open>mark_word\<close> on a term string present in the store, the store keeps
  its length (no term is created or destroyed), one term \<open>i\<close> with that string gets the new
  group, order and related and keeps its string, count and index, and every other term is
  unchanged.
\<close>

theorem mark_word_frame:
  assumes "s \<in> word ` set items"
  shows "\<exists>items' i. mark_word s marker ord rel items = Inr items' \<and>
           length items' = length items \<and> i < length items \<and>
           word (items ! i) = s \<and>
           items' ! i = (items ! i)\<lparr>group := marker, order := ord, related := rel\<rparr> \<and>
           word (items' ! i) = word (items ! i) \<and>
           count (items' ! i) = count (items ! i) \<and>
           index (items' ! i) = index (items ! i) \<and>
           (\<forall>j < length items. j \<noteq> i \<longrightarrow> items' ! j = items ! j)"
proof -
  from mark_word_loop_present [OF assms, of marker ord rel]
  obtain i where i: "i < length items" "word (items ! i) = s"
    "mark_word_loop s marker ord rel items =
       items[i := (items ! i)\<lparr>group := marker, order := ord, related := rel\<rparr>]"
    by blast
  show ?thesis
    by (rule exI [of _ "items[i := (items ! i)\<lparr>group := marker, order := ord, related := rel\<rparr>]"],
        rule exI [of _ i]) (use i in \<open>simp add: mark_word_def\<close>)
qed

theorem mark_word_frame_witness:
  "''b'' \<in> word ` set [\<lparr>index = 0, word = ''a'', count = ''1'', group = NONE, order = - 1, related = ''''\<rparr>,
                        \<lparr>index = 0, word = ''b'', count = ''2'', group = NONE, order = - 1, related = ''''\<rparr>]
   \<and> (\<exists>items'. mark_word ''b'' KEYWORD 0 ''a''
        [\<lparr>index = 0, word = ''a'', count = ''1'', group = NONE, order = - 1, related = ''''\<rparr>,
         \<lparr>index = 0, word = ''b'', count = ''2'', group = NONE, order = - 1, related = ''''\<rparr>]
        = Inr items' \<and> length items' = 2)"
proof -
  let ?a = "\<lparr>index = 0, word = ''a'', count = ''1'', group = NONE, order = - 1, related = ''''\<rparr>"
  let ?b = "\<lparr>index = 0, word = ''b'', count = ''2'', group = NONE, order = - 1, related = ''''\<rparr>"
  have h: "''b'' \<in> word ` set [?a, ?b]" by simp
  have l: "length [?a, ?b] = 2" by simp
  from mark_word_frame [OF h, of KEYWORD 0 "''a''"]
  have "\<exists>items'. mark_word ''b'' KEYWORD 0 ''a'' [?a, ?b] = Inr items' \<and> length items' = 2"
    unfolding l by blast
  with h show ?thesis by (rule conjI)
qed

subsection \<open>The partition of the eligible terms\<close>

lemma related_items_loop_skips_all:
  "related_items_loop key label items acc = acc"
  by (induction key label items acc rule: related_items_loop.induct)
     (simp_all add: order_is_not_None_def)

lemma return_related_items_empty: "return_related_items key label items = ([], [])"
  by (simp add: return_related_items_def related_items_loop_skips_all)

text \<open>
  C4. \<open>return_related_items\<close> is to split the terms that carry the review label and are
  not classified (order \<open>-1\<close>) into those containing the key and the others. It fails on
  the code: the test \<open>w.order is not None\<close> holds for every word, so every word is skipped.
  The term \<open>data science\<close>, labelled \<open>NONE\<close> and unclassified, is eligible and contains the
  key \<open>data\<close>, yet it appears in neither list.
\<close>

theorem return_related_items_eligible_term:
  "return_related_items ''data'' NONE
     [\<lparr>index = 0, word = ''data science'', count = ''1'', group = NONE, order = - 1,
       related = ''''\<rparr>] = ([], [])"
  by (rule return_related_items_empty)

subsection \<open>Whole-token matching\<close>

lemma token_of_no_space:
  assumes "list_all (\<lambda>c. \<not> is_space c) u"
  shows "token_of u k \<longleftrightarrow> u \<noteq> [] \<and> k = u"
proof
  assume t: "token_of u k"
  then obtain pre post where u: "u = pre @ k @ post" and k: "k \<noteq> []"
    and pre: "pre = [] \<or> is_space (last pre)" and post: "post = [] \<or> is_space (hd post)"
    by (auto simp: token_of_def)
  have "pre = []"
  proof (rule ccontr)
    assume "pre \<noteq> []"
    with pre have "is_space (last pre)" and "last pre \<in> set u" using u by auto
    with assms show False by (auto simp: list_all_iff)
  qed
  moreover have "post = []"
  proof (rule ccontr)
    assume "post \<noteq> []"
    with post have "is_space (hd post)" and "hd post \<in> set u" using u by auto
    with assms show False by (auto simp: list_all_iff)
  qed
  ultimately show "u \<noteq> [] \<and> k = u" using u k by simp
next
  assume "u \<noteq> [] \<and> k = u"
  with assms show "token_of u k"
    unfolding token_of_def by (intro conjI exI [of _ "[]"]) auto
qed

lemma token_of_left:
  assumes "is_space c" and "token_of u k"
  shows "token_of (u @ c # v) k"
proof -
  from assms(2) obtain pre post where u: "u = pre @ k @ post" and k: "k \<noteq> []"
    "list_all (\<lambda>c. \<not> is_space c) k"
    and pre: "pre = [] \<or> is_space (last pre)" and post: "post = [] \<or> is_space (hd post)"
    by (auto simp: token_of_def)
  have "u @ c # v = pre @ k @ (post @ c # v)" using u by simp
  moreover have "is_space (hd (post @ c # v))" using post assms(1) by (cases post) auto
  ultimately show ?thesis unfolding token_of_def using k pre by blast
qed

lemma token_of_right:
  assumes "is_space c" and "token_of v k"
  shows "token_of (u @ c # v) k"
proof -
  from assms(2) obtain pre post where v: "v = pre @ k @ post" and k: "k \<noteq> []"
    "list_all (\<lambda>c. \<not> is_space c) k"
    and pre: "pre = [] \<or> is_space (last pre)" and post: "post = [] \<or> is_space (hd post)"
    by (auto simp: token_of_def)
  have "u @ c # v = (u @ c # pre) @ k @ post" using v by simp
  moreover have "is_space (last (u @ c # pre))" using pre assms(1) by (cases "pre = []") auto
  ultimately show ?thesis unfolding token_of_def using k post by blast
qed

lemma token_of_split:
  assumes "is_space c" and "token_of (u @ c # v) k"
  shows "token_of u k \<or> token_of v k"
proof -
  from assms(2) obtain pre post where e: "u @ c # v = pre @ k @ post" and k: "k \<noteq> []"
    and ns: "list_all (\<lambda>c. \<not> is_space c) k"
    and pre: "pre = [] \<or> is_space (last pre)" and post: "post = [] \<or> is_space (hd post)"
    by (auto simp: token_of_def)
  have ck: "c \<notin> set k" using ns assms(1) by (auto simp: list_all_iff)
  from e consider w where "u = pre @ w" "w @ c # v = k @ post"
    | w where "u @ w = pre" "c # v = w @ k @ post"
    by (auto simp: append_eq_append_conv2)
  then show ?thesis
  proof cases
    case 1
    from 1(2) consider x where "w = k @ x" "x @ c # v = post"
      | x where "w @ x = k" "c # v = x @ post"
      by (auto simp: append_eq_append_conv2)
    then have "token_of u k"
    proof cases
      case a: 1
      have "u = pre @ k @ x" using 1(1) a(1) by simp
      moreover have "x = [] \<or> is_space (hd x)"
        using post a(2) by (cases x) auto
      ultimately show ?thesis unfolding token_of_def using k ns pre by blast
    next
      case b: 2
      have "x = []"
      proof (cases x)
        case (Cons y ys)
        with b(2) have "y = c" by simp
        with Cons b(1) ck show ?thesis by auto
      qed simp
      with b(1) 1(1) have "u = pre @ k @ []" by simp
      then show ?thesis unfolding token_of_def using k ns pre by blast
    qed
    then show ?thesis ..
  next
    case 2
    have "w \<noteq> []"
    proof
      assume "w = []"
      with 2(2) have "c # v = k @ post" by simp
      with k have "c \<in> set k" by (cases k) auto
      with ck show False ..
    qed
    with 2(2) obtain w' where w: "w = c # w'" and v: "v = w' @ k @ post"
      by (cases w) auto
    from 2(1) w have p: "pre = u @ c # w'" by simp
    with pre have "is_space (last (u @ c # w'))" by auto
    then have "w' = [] \<or> is_space (last w')" by (cases "w' = []") auto
    with v have "token_of v k" unfolding token_of_def using k ns post by blast
    then show ?thesis ..
  qed
qed

lemma token_of_space_iff:
  "is_space c \<Longrightarrow> token_of (u @ c # v) k \<longleftrightarrow> token_of u k \<or> token_of v k"
  using token_of_left token_of_right token_of_split by blast

lemma split_from_tokens:
  "list_all (\<lambda>c. \<not> is_space c) cur \<Longrightarrow>
   k \<in> set (split_from cur s) \<longleftrightarrow> token_of (cur @ s) k"
proof (induction s arbitrary: cur)
  case Nil
  then show ?case using token_of_no_space [of cur k] by auto
next
  case (Cons c cs)
  show ?case
  proof (cases "is_space c")
    case True
    have e: "k \<in> set (split_from [] cs) \<longleftrightarrow> token_of cs k"
      using Cons.IH [of "[]"] by simp
    have "k \<in> set (split_from cur (c # cs)) \<longleftrightarrow> (cur \<noteq> [] \<and> k = cur) \<or> token_of cs k"
      using True e by auto
    also have "\<dots> \<longleftrightarrow> token_of cur k \<or> token_of cs k"
      using token_of_no_space [OF Cons.prems, of k] by simp
    also have "\<dots> \<longleftrightarrow> token_of (cur @ c # cs) k"
      using token_of_space_iff [OF True] by simp
    finally show ?thesis .
  next
    case False
    with Cons.prems have "list_all (\<lambda>c. \<not> is_space c) (cur @ [c])" by simp
    from Cons.IH [OF this] False show ?thesis by simp
  qed
qed

lemma py_split_tokens: "k \<in> set (py_split s) \<longleftrightarrow> token_of s k"
  using split_from_tokens [of "[]" k s] by (simp add: py_split_def)

text \<open>
  C8. The word-membership test \<open>_word_contains\<close> holds iff the key equals one of the
  whitespace-separated component tokens of the term exactly: it is a whole-token match.
  In particular \<open>data science pipeline\<close> contains \<open>pipeline\<close> and does not contain \<open>pipe\<close>.
\<close>

theorem word_contains_whole_token:
  "(word_contains s key \<longleftrightarrow> token_of s key)
   \<and> word_contains ''data science pipeline'' ''pipeline''
   \<and> \<not> word_contains ''data science pipeline'' ''pipe''"
proof -
  have "word_contains s key \<longleftrightarrow> token_of s key"
    using py_split_tokens [of key s] by (auto simp: word_contains_def list_ex_iff)
  moreover have "py_split ''data science pipeline'' = [''data'', ''science'', ''pipeline'']"
    by (simp add: py_split_def is_space_def)
  then have "word_contains ''data science pipeline'' ''pipeline''"
    and "\<not> word_contains ''data science pipeline'' ''pipe''"
    by (simp_all add: word_contains_def)
  ultimately show ?thesis by blast
qed

section \<open>Properties of loading\<close>

lemma get_from_name_ok:
  "\<not> isl (get_from_name g) \<longleftrightarrow> (\<exists>s. g = Some s \<and> s \<in> set (map label_name labels))"
proof (cases "find (\<lambda>label. Some (label_name label) = g) labels")
  case None
  then have "isl (get_from_name g)" by (simp add: get_from_name_def)
  moreover from None have "\<not> (\<exists>s. g = Some s \<and> s \<in> set (map label_name labels))"
    by (auto simp: find_None_iff)
  ultimately show ?thesis by simp
next
  case (Some l)
  then have "\<not> isl (get_from_name g)" by (simp add: get_from_name_def)
  moreover from Some have "\<exists>s. g = Some s \<and> s \<in> set (map label_name labels)"
    by (auto simp: find_Some_iff)
  ultimately show ?thesis by simp
qed











text \<open>
  A line one cell short is loaded when the missing cell is the count: the term carries
  \<open>None\<close> there. When the missing cell is the order, \<open>int(None)\<close> raises.
\<close>

lemma from_csv_short_row:
  "from_csv int_never_called
     [[''keyword'', ''group'', ''order'', ''count''], [''b'', ''n'', '''']]
   = Inr ([''keyword'', ''group'', ''order'', ''count'', ''related''],
          [\<lparr>row_index = 0, row_word = Some ''b'', row_count = None, row_group = NOISE,
            row_order = - 1, row_related = Some ''''\<rparr>])
   \<and> isl (from_csv int_never_called
         [[''keyword'', ''count'', ''group'', ''order''], [''b'', ''7'', ''n'']])"
  by (simp add: from_csv_def word_of_row_def row_dict_def row_lookup_def row_item_def
      row_get_def label_of_field_def get_from_name_def get_from_key_def labels_def
      py_format_def int_of_cell_def)


section \<open>Properties of the classification session\<close>

subsection \<open>Fresh orders\<close>

lemma distinct_filter_update:
  "distinct (filter P xs) \<Longrightarrow> (P n \<longrightarrow> n \<notin> set xs) \<Longrightarrow> distinct (filter P (xs[i := n]))"
proof (induction xs arbitrary: i)
  case Nil
  then show ?case by simp
next
  case (Cons x xs)
  show ?case
  proof (cases i)
    case 0
    with Cons.prems show ?thesis by (auto split: if_splits)
  next
    case (Suc j)
    have sub: "set (xs[j := n]) \<subseteq> insert n (set xs)" by (rule set_update_subset_insert)
    from Cons.prems have d: "distinct (filter P xs)" and n: "P n \<longrightarrow> n \<notin> set xs"
      by (auto split: if_splits)
    have IH: "distinct (filter P (xs[j := n]))" by (rule Cons.IH [OF d n])
    show ?thesis
    proof (cases "P x")
      case True
      with Cons.prems have "x \<notin> set (filter P xs)" by simp
      moreover from Cons.prems True have "P n \<longrightarrow> x \<noteq> n" by auto
      ultimately have "x \<notin> set (filter P (xs[j := n]))"
        using sub True by auto
      with IH True Suc show ?thesis by simp
    next
      case False
      with IH Suc show ?thesis by simp
    qed
  qed
qed

lemma unique_orders_mark_word_loop:
  assumes "unique_orders items" and "0 \<le> n \<longrightarrow> (\<forall>w \<in> set items. order w \<noteq> n)"
  shows "unique_orders (mark_word_loop s marker n rel items)"
proof (cases "s \<in> word ` set items")
  case False
  then show ?thesis using assms(1) by (simp add: mark_word_loop_absent)
next
  case True
  from mark_word_loop_present [OF True, of marker n rel]
  obtain i where i: "i < length items"
    "mark_word_loop s marker n rel items =
       items[i := (items ! i)\<lparr>group := marker, order := n, related := rel\<rparr>]"
    by blast
  have "map order (mark_word_loop s marker n rel items) = (map order items)[i := n]"
    unfolding i(2) by (simp add: map_update)
  moreover have "distinct (filter (\<lambda>n. 0 \<le> n) ((map order items)[i := n]))"
    using assms by (intro distinct_filter_update) (auto simp: unique_orders_def)
  ultimately show ?thesis by (simp add: unique_orders_def)
qed







text \<open>
  On that store the order assigned is \<open>4\<close>, one more than the largest order \<open>3\<close>.
\<close>

lemma classify_example:
  "classify KEYWORD
     [\<lparr>index = 0, word = ''a'', count = ''1'', group = NONE, order = - 1, related = ''''\<rparr>,
      \<lparr>index = 0, word = ''b'', count = ''2'', group = NOISE, order = 3, related = ''''\<rparr>]
     NONE \<lparr>index = 0, word = ''a'', count = ''1'', group = NONE, order = - 1, related = ''''\<rparr>
     '''' 0
   = Inr \<lparr>terms =
            [\<lparr>index = 0, word = ''a'', count = ''1'', group = KEYWORD, order = 4, related = ''''\<rparr>,
             \<lparr>index = 0, word = ''b'', count = ''2'', group = NOISE, order = 3, related = ''''\<rparr>],
          to_classify = [], related_items_count = 0, sort_word_key = ''a''\<rparr>"
  by (simp add: classify_def mark_word_def return_related_items_empty
      get_last_classified_order_def)

text \<open>The undo action keeps the invariant as well.\<close>

lemma undo_unique_orders:
  assumes "undo items queue review key cnt = Inr s" and "unique_orders items"
  shows "unique_orders (terms s)"
proof (cases "get_last_classified_term items")
  case None
  with assms show ?thesis by (auto simp: undo_def)
next
  case (Some w)
  with assms(1) have "terms s = mark_word_loop (word w) review (- 1) '''' items"
    by (auto simp: undo_def mark_word_def return_related_items_empty Let_def split: if_splits)
  with assms(2) show ?thesis by (simp add: unique_orders_mark_word_loop)
qed


subsection \<open>The anchor of a new group\<close>

text \<open>
  C5, as the code has it. For a classify action performed while no group is active
  (\<open>related_items_count \<le> 0\<close>) on a term of the store, the store is mutated first, with
  the anchor that was passed in: the term gets the label and its related field is that
  previous anchor. Only then does the term become the new anchor: the returned
  \<open>sort_word_key\<close> is its string.
\<close>

theorem classify_starts_group:
  assumes "cnt \<le> 0" and "word t \<in> word ` set items"
  shows "\<exists>s w'. classify label items review t key cnt = Inr s \<and>
           sort_word_key s = word t \<and>
           find (\<lambda>w. word w = word t) (terms s) = Some w' \<and>
           group w' = label \<and> related w' = key"
proof -
  from assms(2) have "items \<noteq> []" by auto
  from get_last_classified_order_bound [OF this]
  obtain n where n: "get_last_classified_order items = Inr n" by blast
  from assms(2) obtain w where w: "find (\<lambda>w. word w = word t) items = Some w"
    by (cases "find (\<lambda>w. word w = word t) items") (auto simp: find_None_iff)
  show ?thesis
    using n w assms(1)
    by (simp add: classify_def mark_word_def return_related_items_empty find_mark_word_loop)
qed

theorem classify_starts_group_witness:
  "(- 2 :: int) \<le> 0
   \<and> word \<lparr>index = 0, word = ''b'', count = ''2'', group = NONE, order = - 1, related = ''''\<rparr>
       \<in> word ` set
         [\<lparr>index = 0, word = ''a'', count = ''1'', group = KEYWORD, order = 0, related = ''''\<rparr>,
          \<lparr>index = 0, word = ''b'', count = ''2'', group = NONE, order = - 1, related = ''''\<rparr>]
   \<and> (\<exists>s w'. classify NOISE
          [\<lparr>index = 0, word = ''a'', count = ''1'', group = KEYWORD, order = 0, related = ''''\<rparr>,
           \<lparr>index = 0, word = ''b'', count = ''2'', group = NONE, order = - 1, related = ''''\<rparr>]
          NONE \<lparr>index = 0, word = ''b'', count = ''2'', group = NONE, order = - 1, related = ''''\<rparr>
          ''a'' (- 2) = Inr s
        \<and> sort_word_key s = ''b'' \<and> related w' = ''a'' \<and> w' \<in> set (terms s))"
proof -
  let ?a = "\<lparr>index = 0, word = ''a'', count = ''1'', group = KEYWORD, order = 0, related = ''''\<rparr>"
  let ?b = "\<lparr>index = 0, word = ''b'', count = ''2'', group = NONE, order = - 1, related = ''''\<rparr>"
  have h1: "(- 2 :: int) \<le> 0" by simp
  have h2: "word ?b \<in> word ` set [?a, ?b]" by simp
  from classify_starts_group [OF h1 h2, of NOISE NONE "''a''"]
  obtain s w' where s: "classify NOISE [?a, ?b] NONE ?b ''a'' (- 2) = Inr s"
    "sort_word_key s = word ?b"
    "find (\<lambda>w. word w = word ?b) (terms s) = Some w'" "related w' = ''a''"
    by blast
  from s(3) have "w' \<in> set (terms s)" by (auto simp: find_Some_iff)
  moreover from s(2) have "sort_word_key s = ''b''" by simp
  ultimately have "\<exists>s w'. classify NOISE [?a, ?b] NONE ?b ''a'' (- 2) = Inr s
        \<and> sort_word_key s = ''b'' \<and> related w' = ''a'' \<and> w' \<in> set (terms s)"
    using s(1,4) by blast
  with h1 h2 show ?thesis by blast
qed

text \<open>
  C5 as stated fails: classifying the term \<open>a\<close> while no group is active (count \<open>0\<close>, empty
  anchor) makes \<open>a\<close> the new anchor, but the store records the empty string, not \<open>a\<close>, as
  the related field of \<open>a\<close>.
\<close>

theorem classify_related_is_old_anchor:
  "classify KEYWORD
     [\<lparr>index = 0, word = ''a'', count = ''1'', group = NONE, order = - 1, related = ''''\<rparr>]
     NONE \<lparr>index = 0, word = ''a'', count = ''1'', group = NONE, order = - 1, related = ''''\<rparr>
     '''' 0
   = Inr \<lparr>terms = [\<lparr>index = 0, word = ''a'', count = ''1'', group = KEYWORD, order = 0,
                     related = ''''\<rparr>],
          to_classify = [], related_items_count = 0, sort_word_key = ''a''\<rparr>"
  by (simp add: classify_def mark_word_def return_related_items_empty
      get_last_classified_order_def)

subsection \<open>Undo with nothing classified\<close>

text \<open>
  When the store has no last classified term, the undo returns its arguments unchanged.
\<close>

lemma undo_no_last_word:
  "get_last_classified_term items = None \<Longrightarrow>
   undo items queue review key cnt =
     Inr \<lparr>terms = items, to_classify = queue, related_items_count = cnt,
          sort_word_key = key\<rparr>"
  by (simp add: undo_def)

lemma get_last_classified_term_None:
  "get_last_classified_term items = None \<longleftrightarrow> (\<forall>w \<in> set items. order w < 0)"
proof -
  have "filter (\<lambda>w. 0 \<le> order w) items = [] \<longleftrightarrow> (\<forall>w \<in> set items. order w < 0)"
    by (auto simp: filter_empty_conv)
  then show ?thesis
    by (cases "filter (\<lambda>w. 0 \<le> order w) items") (simp_all add: get_last_classified_term_def)
qed

text \<open>
  C2. An undo action performed when no term has ever been classified (every order is
  \<open>-1\<close>) is a no-op: it raises no error and returns the Term Store, the work queue,
  \<open>sort_word_key\<close> and \<open>related_items_count\<close> unchanged.
\<close>

theorem undo_nothing_classified:
  assumes "\<forall>w \<in> set items. order w = - 1"
  shows "undo items queue review key cnt =
           Inr \<lparr>terms = items, to_classify = queue, related_items_count = cnt,
                sort_word_key = key\<rparr>"
proof -
  from assms have "\<forall>w \<in> set items. order w < 0" by simp
  then have "get_last_classified_term items = None"
    by (simp add: get_last_classified_term_None)
  then show ?thesis by (rule undo_no_last_word)
qed

theorem undo_nothing_classified_witness:
  "order \<lparr>index = 0, word = ''a'', count = ''1'', group = NONE, order = - 1, related = ''''\<rparr>
     = - 1
   \<and> undo [\<lparr>index = 0, word = ''a'', count = ''1'', group = NONE, order = - 1, related = ''''\<rparr>]
        [''a''] NONE '''' 0
     = Inr \<lparr>terms = [\<lparr>index = 0, word = ''a'', count = ''1'', group = NONE, order = - 1,
                       related = ''''\<rparr>],
            to_classify = [''a''], related_items_count = 0, sort_word_key = ''''\<rparr>"
proof -
  let ?a = "\<lparr>index = 0, word = ''a'', count = ''1'', group = NONE, order = - 1, related = ''''\<rparr>"
  have o: "order ?a = - 1" by simp
  then have h: "\<forall>w \<in> set [?a]. order w = - 1" by simp
  from o undo_nothing_classified [OF h, of "[''a'']" NONE "''''" 0]
  show ?thesis by (rule conjI)
qed

text \<open>
  Once a term is classified the undo does revert it: with the lookup of the spec, the
  term of maximum order goes back to the review label with the order \<open>-1\<close>.
\<close>

lemma undo_example:
  "undo
     [\<lparr>index = 0, word = ''a'', count = ''1'', group = KEYWORD, order = 0, related = ''''\<rparr>,
      \<lparr>index = 0, word = ''b'', count = ''2'', group = NOISE, order = 1, related = ''a''\<rparr>]
     [] NONE ''a'' 1
   = Inr \<lparr>terms =
            [\<lparr>index = 0, word = ''a'', count = ''1'', group = KEYWORD, order = 0, related = ''''\<rparr>,
             \<lparr>index = 0, word = ''b'', count = ''2'', group = NONE, order = - 1, related = ''''\<rparr>],
          to_classify = [''b''], related_items_count = 2, sort_word_key = ''a''\<rparr>"
  by (simp add: undo_def mark_word_def get_last_classified_term_def Let_def)

end
